theory Spec2Isabelle
  imports Complex_Main "HOL-Library.FSet"
begin

section \<open>JavaScript numbers\<close>

text \<open>
  The layout and camera code of \<^verbatim>\<open>components/Experience.tsx\<close> computes with JavaScript
  numbers. A number is modelled as a real, or one of the three special values
  \<^verbatim>\<open>Infinity\<close>, \<^verbatim>\<open>-Infinity\<close> and \<^verbatim>\<open>NaN\<close>. The arithmetic below follows the
  ECMAScript rules for the special values (an undefined form such as \<^verbatim>\<open>0/0\<close>,
  \<^verbatim>\<open>Infinity - Infinity\<close> or \<^verbatim>\<open>sin(Infinity)\<close> is \<^verbatim>\<open>NaN\<close>; every comparison with
  \<^verbatim>\<open>NaN\<close> is false). Two things are abstracted: finite results are exact (no rounding,
  no overflow of a finite computation), and there is one zero (the sign of zero is not
  tracked, a division of a non-zero number by zero takes the sign of the dividend).
\<close>

datatype jsnum = Num real | PInf | NInf | NaN

fun js_isNaN :: "jsnum \<Rightarrow> bool" where
  "js_isNaN NaN = True"
| "js_isNaN _ = False"

fun js_isFinite :: "jsnum \<Rightarrow> bool" where
  "js_isFinite (Num _) = True"
| "js_isFinite _ = False"

fun js_neg :: "jsnum \<Rightarrow> jsnum" where
  "js_neg (Num a) = Num (- a)"
| "js_neg PInf = NInf"
| "js_neg NInf = PInf"
| "js_neg NaN = NaN"

fun js_add :: "jsnum \<Rightarrow> jsnum \<Rightarrow> jsnum" where
  "js_add NaN _ = NaN"
| "js_add _ NaN = NaN"
| "js_add (Num a) (Num b) = Num (a + b)"
| "js_add PInf NInf = NaN"
| "js_add NInf PInf = NaN"
| "js_add PInf _ = PInf"
| "js_add _ PInf = PInf"
| "js_add NInf _ = NInf"
| "js_add _ NInf = NInf"

definition js_sub :: "jsnum \<Rightarrow> jsnum \<Rightarrow> jsnum" where
  "js_sub a b = js_add a (js_neg b)"

text \<open>The sign of an infinite product or quotient: positive, negative, or undefined at 0.\<close>

definition signed_inf :: "real \<Rightarrow> jsnum" where
  "signed_inf s = (if s = 0 then NaN else if 0 < s then PInf else NInf)"

fun js_mul :: "jsnum \<Rightarrow> jsnum \<Rightarrow> jsnum" where
  "js_mul NaN _ = NaN"
| "js_mul _ NaN = NaN"
| "js_mul (Num a) (Num b) = Num (a * b)"
| "js_mul (Num a) PInf = signed_inf a"
| "js_mul (Num a) NInf = signed_inf (- a)"
| "js_mul PInf (Num b) = signed_inf b"
| "js_mul NInf (Num b) = signed_inf (- b)"
| "js_mul PInf PInf = PInf"
| "js_mul NInf NInf = PInf"
| "js_mul PInf NInf = NInf"
| "js_mul NInf PInf = NInf"

fun js_div :: "jsnum \<Rightarrow> jsnum \<Rightarrow> jsnum" where
  "js_div NaN _ = NaN"
| "js_div _ NaN = NaN"
| "js_div (Num a) (Num b) = (if b = 0 then signed_inf a else Num (a / b))"
| "js_div (Num a) PInf = Num 0"
| "js_div (Num a) NInf = Num 0"
| "js_div PInf (Num b) = (if 0 \<le> b then PInf else NInf)"
| "js_div NInf (Num b) = (if 0 \<le> b then NInf else PInf)"
| "js_div _ _ = NaN"

fun js_lt :: "jsnum \<Rightarrow> jsnum \<Rightarrow> bool" where
  "js_lt NaN _ = False"
| "js_lt _ NaN = False"
| "js_lt (Num a) (Num b) = (a < b)"
| "js_lt _ NInf = False"
| "js_lt PInf _ = False"
| "js_lt NInf _ = True"
| "js_lt _ PInf = True"

fun js_le :: "jsnum \<Rightarrow> jsnum \<Rightarrow> bool" where
  "js_le NaN _ = False"
| "js_le _ NaN = False"
| "js_le (Num a) (Num b) = (a \<le> b)"
| "js_le NInf _ = True"
| "js_le _ PInf = True"
| "js_le _ NInf = False"
| "js_le PInf _ = False"

definition js_gt :: "jsnum \<Rightarrow> jsnum \<Rightarrow> bool" where
  "js_gt a b = js_lt b a"

definition js_ge :: "jsnum \<Rightarrow> jsnum \<Rightarrow> bool" where
  "js_ge a b = js_le b a"

text \<open>\<^verbatim>\<open>Math.min\<close> and \<^verbatim>\<open>Math.max\<close> of two arguments: \<^verbatim>\<open>NaN\<close> if either is.\<close>

definition js_min :: "jsnum \<Rightarrow> jsnum \<Rightarrow> jsnum" where
  "js_min a b = (if js_isNaN a \<or> js_isNaN b then NaN else if js_le a b then a else b)"

definition js_max :: "jsnum \<Rightarrow> jsnum \<Rightarrow> jsnum" where
  "js_max a b = (if js_isNaN a \<or> js_isNaN b then NaN else if js_le a b then b else a)"

fun js_sin :: "jsnum \<Rightarrow> jsnum" where
  "js_sin (Num a) = Num (sin a)"
| "js_sin _ = NaN"

fun js_cos :: "jsnum \<Rightarrow> jsnum" where
  "js_cos (Num a) = Num (cos a)"
| "js_cos _ = NaN"

text \<open>\<^verbatim>\<open>Math.atan2(y, x)\<close>, the angle of the point \<open>(x, y)\<close> in \<open>(-\<pi>, \<pi>]\<close>.\<close>

definition atan2_real :: "real \<Rightarrow> real \<Rightarrow> real" where
  "atan2_real b a =
     (if 0 < a then arctan (b / a)
      else if a < 0 then (if 0 \<le> b then arctan (b / a) + pi else arctan (b / a) - pi)
      else if 0 < b then pi / 2
      else if b < 0 then - (pi / 2)
      else 0)"

fun js_atan2 :: "jsnum \<Rightarrow> jsnum \<Rightarrow> jsnum" where
  "js_atan2 NaN _ = NaN"
| "js_atan2 _ NaN = NaN"
| "js_atan2 (Num b) (Num a) = Num (atan2_real b a)"
| "js_atan2 (Num b) PInf = Num 0"
| "js_atan2 (Num b) NInf = (if 0 \<le> b then Num pi else Num (- pi))"
| "js_atan2 PInf (Num a) = Num (pi / 2)"
| "js_atan2 NInf (Num a) = Num (- (pi / 2))"
| "js_atan2 PInf PInf = Num (pi / 4)"
| "js_atan2 PInf NInf = Num (3 * pi / 4)"
| "js_atan2 NInf PInf = Num (- (pi / 4))"
| "js_atan2 NInf NInf = Num (- (3 * pi / 4))"

text \<open>\<^verbatim>\<open>a || b\<close> on numbers: \<open>b\<close> when \<open>a\<close> is falsy, which for a number is 0 or NaN.\<close>

definition js_or :: "jsnum \<Rightarrow> jsnum \<Rightarrow> jsnum" where
  "js_or a b = (if a = Num 0 \<or> a = NaN then b else a)"

section \<open>Constants and the path function\<close>

definition TUNNEL_DEPTH :: jsnum where
  "TUNNEL_DEPTH = Num 150"

definition SPIRAL_RADIUS :: jsnum where
  "SPIRAL_RADIUS = Num 8"

record offset =
  off_x :: jsnum
  off_y :: jsnum

definition getPathOffset :: "jsnum \<Rightarrow> offset" where
  "getPathOffset z =
     (let x = js_add (js_mul (js_sin (js_mul z (Num 0.05))) (Num 4))
                     (js_mul (js_cos (js_mul z (Num 0.02))) (Num 2));
          y = js_add (js_mul (js_cos (js_mul z (Num 0.04))) (Num 3))
                     (js_mul (js_sin (js_mul z (Num 0.01))) (Num 2))
      in \<lparr> off_x = (if js_isNaN x then Num 0 else x),
           off_y = (if js_isNaN y then Num 0 else y) \<rparr>)"

section \<open>Layout: depth budget, spacing, transforms\<close>

text \<open>
  \<^verbatim>\<open>dynamicDepth\<close> is memoised on \<^verbatim>\<open>photos.length\<close>, which is its only input.
\<close>

definition dynamicDepth :: "nat \<Rightarrow> jsnum" where
  "dynamicDepth len =
     (let maxSpacing = Num 15;
          neededDepth = js_mul (Num (real len)) maxSpacing
      in js_max neededDepth
           (js_min (js_mul TUNNEL_DEPTH (Num 1.5)) (js_mul (Num (real len)) (Num 15))))"

text \<open>
  The two lines that \<^verbatim>\<open>photoTransforms\<close> and \<^verbatim>\<open>milestones\<close> both start with: the raw
  spacing divides the depth by \<^verbatim>\<open>length - 1\<close> only when the length exceeds 1.
\<close>

definition rawSpacing :: "nat \<Rightarrow> jsnum \<Rightarrow> jsnum" where
  "rawSpacing len depth =
     (if 1 < len then js_div depth (js_sub (Num (real len)) (Num 1)) else Num 15)"

definition spacing :: "nat \<Rightarrow> jsnum \<Rightarrow> jsnum" where
  "spacing len depth = js_min (rawSpacing len depth) (Num 15)"

record transform =
  tr_x :: jsnum
  tr_y :: jsnum
  tr_z :: jsnum
  rotationY :: jsnum

definition firstPhotoZ :: jsnum where
  "firstPhotoZ = Num (- 10)"

text \<open>The body of the \<^verbatim>\<open>map\<close> callback of \<^verbatim>\<open>photoTransforms\<close>, at index \<open>i\<close>.\<close>

definition transformAt :: "jsnum \<Rightarrow> nat \<Rightarrow> transform" where
  "transformAt sp i =
     (let angle = js_mul (Num (real i)) (Num 0.9);
          z = js_sub firstPhotoZ (js_mul (Num (real i)) sp);
          off = getPathOffset z;
          radius = js_add (js_add SPIRAL_RADIUS (if i mod 2 = 0 then Num 3 else Num (- 3)))
                          (js_mul (js_sin (Num (real i))) (Num 2));
          x = js_add (js_mul (js_cos angle) radius) (off_x off);
          y = js_add (js_mul (js_sin angle) radius) (off_y off);
          rotY = js_mul (js_neg (js_atan2 (js_sub x (off_x off)) (js_or (js_neg z) (Num 1))))
                        (Num 0.5)
      in \<lparr> tr_x = x, tr_y = y, tr_z = z, rotationY = rotY \<rparr>)"

definition photoTransforms :: "'a list \<Rightarrow> jsnum \<Rightarrow> transform list" where
  "photoTransforms sps depth =
     (if length sps = 0 then []
      else map (transformAt (spacing (length sps) depth)) [0 ..< length sps])"

section \<open>Items, sorting and milestones\<close>

text \<open>
  \<^verbatim>\<open>PhotoData\<close> with the fields the scene reads. The timestamp is epoch milliseconds, an
  integer. Strings are compared for equality only, so the encoding of a character does
  not matter; a month name of the application (a number followed by the CJK character
  for month) is written as its UTF-8 bytes.
\<close>

record PhotoData =
  photo_id :: int
  url :: string
  title :: string
  year :: string
  month :: string
  timestamp :: int
  description :: string

text \<open>
  \<^verbatim>\<open>Array.prototype.sort\<close> with a comparator is stable: \<open>a\<close> stays before \<open>b\<close> unless
  the comparator is positive. Insertion from the right gives that order.
\<close>

fun insert_cmp :: "('a \<Rightarrow> 'a \<Rightarrow> int) \<Rightarrow> 'a \<Rightarrow> 'a list \<Rightarrow> 'a list" where
  "insert_cmp cmp a [] = [a]"
| "insert_cmp cmp a (b # bs) = (if cmp a b \<le> 0 then a # b # bs else b # insert_cmp cmp a bs)"

definition js_sort :: "('a \<Rightarrow> 'a \<Rightarrow> int) \<Rightarrow> 'a list \<Rightarrow> 'a list" where
  "js_sort cmp xs = foldr (insert_cmp cmp) xs []"

definition sortedPhotos :: "PhotoData list \<Rightarrow> PhotoData list" where
  "sortedPhotos photos = js_sort (\<lambda>a b. timestamp b - timestamp a) photos"

text \<open>The transforms of a scene: both memos evaluated on the same \<^verbatim>\<open>photos\<close> prop.\<close>

definition sceneTransforms :: "PhotoData list \<Rightarrow> transform list" where
  "sceneTransforms photos = photoTransforms (sortedPhotos photos) (dynamicDepth (length photos))"

record milestone =
  label :: string
  ms_z :: jsnum
  ms_offset :: offset

definition groupKey :: "PhotoData \<Rightarrow> string" where
  "groupKey p = month p @ '' '' @ year p"

text \<open>
  The \<^verbatim>\<open>forEach\<close> of \<^verbatim>\<open>milestones\<close>: the state is the list \<^verbatim>\<open>items\<close> and \<^verbatim>\<open>lastKey\<close>,
  \<open>i\<close> is the index of the head of the remaining list.
\<close>

fun milestones_loop ::
  "jsnum \<Rightarrow> PhotoData list \<Rightarrow> nat \<Rightarrow> milestone list \<times> string \<Rightarrow> milestone list \<times> string" where
  "milestones_loop sp [] i st = st"
| "milestones_loop sp (p # ps) i (items, lastKey) =
     (let key = groupKey p in
      if key \<noteq> lastKey then
        (let z = js_sub firstPhotoZ (js_mul (Num (real i)) sp) in
         milestones_loop sp ps (Suc i)
           (items @ [\<lparr> label = key, ms_z = z, ms_offset = getPathOffset z \<rparr>], key))
      else milestones_loop sp ps (Suc i) (items, lastKey))"

definition milestones :: "PhotoData list \<Rightarrow> jsnum \<Rightarrow> milestone list" where
  "milestones sps depth = fst (milestones_loop (spacing (length sps) depth) sps 0 ([], []))"

definition sceneMilestones :: "PhotoData list \<Rightarrow> milestone list" where
  "sceneMilestones photos = milestones (sortedPhotos photos) (dynamicDepth (length photos))"

text \<open>
  The count the specification gives for the milestones: the number of maximal runs of
  adjacent items with the same group key.
\<close>

definition groupKeyRuns :: "PhotoData list \<Rightarrow> nat" where
  "groupKeyRuns sps = length (remdups_adj (map groupKey sps))"

section \<open>Autoplay\<close>

text \<open>
  The autoplay effect of \<^verbatim>\<open>SceneContent\<close> scrolls the HTML element that the scroll
  controls listen to. The DOM is the list of \<^verbatim>\<open>div\<close> elements the effect inspects,
  each with the computed style and the geometry the effect reads. Times
  (\<^verbatim>\<open>performance.now()\<close>, the timestamp of an animation frame) and pixel geometry are
  finite numbers, modelled as reals; a value assigned to \<^verbatim>\<open>scrollTop\<close> is taken to be
  stored as it is, and to be what the next frame reads (nothing else scrolls the
  container between two frames of the loop).
\<close>

record div_element =
  overflow :: string
  overflowY :: string
  scrollHeight :: real
  clientHeight :: real
  el_scrollTop :: real

definition getScrollContainer :: "div_element list \<Rightarrow> div_element option" where
  "getScrollContainer divs =
     find (\<lambda>el. (overflow el = ''auto'' \<or> overflowY el = ''auto'' \<or> overflow el = ''scroll'')
                \<and> clientHeight el < scrollHeight el) divs"

text \<open>
  The state of a running loop: the container's \<^verbatim>\<open>scrollTop\<close>, the variables
  \<^verbatim>\<open>lastTime\<close> and \<^verbatim>\<open>maxScroll\<close> of the closure, and whether a frame request is
  outstanding (\<^verbatim>\<open>requestAnimationFrame\<close> called, callback not yet run).
\<close>

record autoplay =
  scrollTop :: real
  lastTime :: real
  maxScroll :: real
  pending :: bool

text \<open>
  The effect body up to the first \<^verbatim>\<open>requestAnimationFrame\<close>: no loop (\<open>None\<close>) when
  autoplay is off, an item is focused, or no scroll container is found.
\<close>

definition autoplay_effect ::
  "bool \<Rightarrow> int option \<Rightarrow> div_element list \<Rightarrow> real \<Rightarrow> autoplay option" where
  "autoplay_effect isAutoPlaying focusedPhotoId divs now =
     (if \<not> isAutoPlaying \<or> focusedPhotoId \<noteq> None then None
      else case getScrollContainer divs of
             None \<Rightarrow> None
           | Some scrollContainer \<Rightarrow>
               Some \<lparr> scrollTop = el_scrollTop scrollContainer, lastTime = now,
                      maxScroll = scrollHeight scrollContainer - clientHeight scrollContainer,
                      pending = True \<rparr>)"

definition animate :: "bool \<Rightarrow> int option \<Rightarrow> real \<Rightarrow> autoplay \<Rightarrow> real \<Rightarrow> autoplay" where
  "animate isAutoPlaying focusedPhotoId autoPlaySpeed st currentTime =
     (if \<not> isAutoPlaying \<or> focusedPhotoId \<noteq> None then st\<lparr> pending := False \<rparr>
      else
        let deltaTime = (currentTime - lastTime st) / 1000;
            scrollDelta = maxScroll st * autoPlaySpeed * deltaTime;
            newScrollTop = min (scrollTop st + scrollDelta) (maxScroll st)
        in if maxScroll st - 1 \<le> newScrollTop
           then st\<lparr> scrollTop := newScrollTop, lastTime := currentTime, pending := False \<rparr>
           else st\<lparr> scrollTop := newScrollTop, lastTime := currentTime, pending := True \<rparr>)"

text \<open>
  The browser runs the callback at each animation frame for which a request is
  outstanding; \<open>ts\<close> are the timestamps of the successive frames.
\<close>

fun run_frames :: "bool \<Rightarrow> int option \<Rightarrow> real \<Rightarrow> autoplay \<Rightarrow> real list \<Rightarrow> autoplay" where
  "run_frames isAutoPlaying focusedPhotoId autoPlaySpeed st [] = st"
| "run_frames isAutoPlaying focusedPhotoId autoPlaySpeed st (t # ts) =
     (if pending st
      then run_frames isAutoPlaying focusedPhotoId autoPlaySpeed
             (animate isAutoPlaying focusedPhotoId autoPlaySpeed st t) ts
      else st)"

text \<open>Traversal progress: the scroll offset as a fraction of the scrollable height.\<close>

definition progress :: "autoplay \<Rightarrow> real" where
  "progress st = scrollTop st / maxScroll st"

text \<open>The \<^verbatim>\<open>enabled\<close> prop that \<^verbatim>\<open>Experience\<close> passes to the scroll controls.\<close>

definition scrollControlsEnabled :: "int option \<Rightarrow> bool" where
  "scrollControlsEnabled focusedPhotoId = (focusedPhotoId = None)"

section \<open>Visibility\<close>

text \<open>
  The visible set is a \<^verbatim>\<open>Set\<close> of indices, a finite set. The state holds the
  React state \<^verbatim>\<open>visibleIndices\<close>, the ref \<^verbatim>\<open>lastVisibleUpdateRef\<close>, and the number of
  calls of \<^verbatim>\<open>setVisibleIndices\<close> so far (each call is a state change that re-renders
  the scene); a call is taken to have replaced the state by the next frame.
\<close>

fun visible_loop :: "jsnum \<Rightarrow> transform list \<Rightarrow> nat \<Rightarrow> nat fset \<Rightarrow> nat fset" where
  "visible_loop camZ [] i nextVisible = nextVisible"
| "visible_loop camZ (t # ts) i nextVisible =
     (let dist = js_sub (tr_z t) camZ in
      visible_loop camZ ts (Suc i)
        (if js_le dist (Num 5) \<and> js_gt dist (Num (- 100)) then finsert i nextVisible
         else nextVisible))"

definition computeVisible :: "jsnum \<Rightarrow> transform list \<Rightarrow> nat fset" where
  "computeVisible camZ ts = visible_loop camZ ts 0 {||}"

definition visibleChanged :: "nat fset \<Rightarrow> nat fset \<Rightarrow> bool" where
  "visibleChanged nextVisible visibleIndices =
     (fcard nextVisible \<noteq> fcard visibleIndices
      \<or> \<not> fBall nextVisible (\<lambda>idx. idx |\<in>| visibleIndices))"

record visibility =
  visibleIndices :: "nat fset"
  lastVisibleUpdate :: real
  setVisibleCalls :: nat

definition frame_visibility ::
  "real \<Rightarrow> jsnum \<Rightarrow> transform list \<Rightarrow> visibility \<Rightarrow> visibility" where
  "frame_visibility now camZ ts st =
     (if 0.08 < now - lastVisibleUpdate st then
        (let nextVisible = computeVisible camZ ts in
         if visibleChanged nextVisible (visibleIndices st)
         then st\<lparr> lastVisibleUpdate := now, visibleIndices := nextVisible,
                  setVisibleCalls := Suc (setVisibleCalls st) \<rparr>
         else st\<lparr> lastVisibleUpdate := now \<rparr>)
      else st)"

section \<open>Camera\<close>

record vec3 =
  vx :: jsnum
  vy :: jsnum
  vz :: jsnum

text \<open>\<^verbatim>\<open>Vector3.lerp\<close>: each component moves by \<open>alpha\<close> of its distance to the target.\<close>

definition lerp :: "vec3 \<Rightarrow> vec3 \<Rightarrow> jsnum \<Rightarrow> vec3" where
  "lerp p v alpha =
     \<lparr> vx = js_add (vx p) (js_mul (js_sub (vx v) (vx p)) alpha),
       vy = js_add (vy p) (js_mul (js_sub (vy v) (vy p)) alpha),
       vz = js_add (vz p) (js_mul (js_sub (vz v) (vz p)) alpha) \<rparr>"

text \<open>The camera: its position and the point it was last turned to by \<^verbatim>\<open>lookAt\<close>.\<close>

record camera =
  cam_position :: vec3
  cam_lookAt :: vec3

text \<open>
  \<^verbatim>\<open>findIndex\<close> returns \<open>-1\<close> when no element matches. Reading an array at an
  index that is not one of its own gives \<^verbatim>\<open>undefined\<close> (\<open>None\<close>), which is falsy; a
  transform object is truthy.
\<close>

fun findIndex_from :: "('a \<Rightarrow> bool) \<Rightarrow> 'a list \<Rightarrow> int \<Rightarrow> int" where
  "findIndex_from P [] i = - 1"
| "findIndex_from P (a # as) i = (if P a then i else findIndex_from P as (i + 1))"

definition findIndex :: "('a \<Rightarrow> bool) \<Rightarrow> 'a list \<Rightarrow> int" where
  "findIndex P xs = findIndex_from P xs 0"

definition focusedPhotoIndex :: "int option \<Rightarrow> PhotoData list \<Rightarrow> int" where
  "focusedPhotoIndex focusedPhotoId sps =
     (case focusedPhotoId of
        Some fid \<Rightarrow> findIndex (\<lambda>p. photo_id p = fid) sps
      | None \<Rightarrow> - 1)"

definition js_index :: "'a list \<Rightarrow> int \<Rightarrow> 'a option" where
  "js_index xs i = (if 0 \<le> i \<and> i < int (length xs) then Some (xs ! nat i) else None)"

definition focusedPose :: "jsnum \<Rightarrow> transform \<Rightarrow> camera \<Rightarrow> camera" where
  "focusedPose viewportWidth target cam =
     (let isMobile = js_lt viewportWidth (Num 10);
          offsetX = (if isMobile then Num 0 else Num 5);
          offsetY = (if isMobile then Num 2 else Num 0);
          offsetZ = (if isMobile then Num 18 else Num 14);
          targetCamPos = \<lparr> vx = js_add (tr_x target) offsetX,
                           vy = js_sub (tr_y target) offsetY,
                           vz = js_add (tr_z target) offsetZ \<rparr>;
          lookAtTarget = \<lparr> vx = js_add (tr_x target) (js_mul offsetX (Num 0.8)),
                           vy = js_sub (tr_y target) (js_mul offsetY (Num 0.8)),
                           vz = tr_z target \<rparr>
      in \<lparr> cam_position = lerp (cam_position cam) targetCamPos (Num 0.08),
           cam_lookAt = lookAtTarget \<rparr>)"

definition freePose :: "jsnum \<Rightarrow> jsnum \<Rightarrow> camera \<Rightarrow> camera" where
  "freePose scrollOffset depth cam =
     (let off = js_or scrollOffset (Num 0);
          targetZ = js_sub (Num 10) (js_mul off (js_add depth (Num 20)));
          pathOffset = getPathOffset targetZ;
          targetPos = \<lparr> vx = off_x pathOffset, vy = off_y pathOffset, vz = targetZ \<rparr>;
          lookAtZ = js_sub targetZ (Num 20);
          futureOffset = getPathOffset lookAtZ
      in \<lparr> cam_position = lerp (cam_position cam) targetPos (Num 0.08),
           cam_lookAt = \<lparr> vx = off_x futureOffset, vy = off_y futureOffset, vz = lookAtZ \<rparr> \<rparr>)"

text \<open>
  The camera part of the frame callback. \<open>index\<close> is \<^verbatim>\<open>focusedPhotoIndexRef.current\<close>,
  \<open>ts\<close> the current \<^verbatim>\<open>photoTransforms\<close>.
\<close>

definition frame_camera ::
  "int option \<Rightarrow> int \<Rightarrow> transform list \<Rightarrow> jsnum \<Rightarrow> jsnum \<Rightarrow> jsnum \<Rightarrow> camera \<Rightarrow> camera" where
  "frame_camera focusedPhotoId index ts viewportWidth scrollOffset depth cam =
     (if focusedPhotoId \<noteq> None then
        (if index \<noteq> - 1 \<and> index < int (length ts) then
           (case js_index ts index of
              Some target \<Rightarrow> focusedPose viewportWidth target cam
            | None \<Rightarrow> cam)
         else cam)
      else freePose scrollOffset depth cam)"

section \<open>Example scenes\<close>

text \<open>
  Three photos of 2024, given in upload order: one of 15 January and two of February
  (the 10th and the 20th), with the month names and year strings the application stores.
\<close>

definition monthName :: "string \<Rightarrow> string" where
  "monthName n = n @ [CHR 0xE6, CHR 0x9C, CHR 0x88]"

definition photoOf :: "int \<Rightarrow> string \<Rightarrow> string \<Rightarrow> int \<Rightarrow> PhotoData" where
  "photoOf i y m t =
     \<lparr> photo_id = i, url = [], title = [], year = y, month = m, timestamp = t,
       description = [] \<rparr>"

definition janFebFeb :: "PhotoData list" where
  "janFebFeb =
     [photoOf 1 ''2024'' (monthName ''1'') 1705276800000,
      photoOf 2 ''2024'' (monthName ''2'') 1707523200000,
      photoOf 3 ''2024'' (monthName ''2'') 1708387200000]"

text \<open>
  A page with two \<^verbatim>\<open>div\<close> elements: a fixed one, and the scroll element of the scroll
  controls, 1600 pixels of content in a 600 pixel viewport, scrolled to the top.
\<close>

definition scrollDivs :: "div_element list" where
  "scrollDivs =
     [\<lparr> overflow = ''hidden'', overflowY = ''hidden'', scrollHeight = 600,
        clientHeight = 600, el_scrollTop = 0 \<rparr>,
      \<lparr> overflow = ''hidden auto'', overflowY = ''auto'', scrollHeight = 1600,
        clientHeight = 600, el_scrollTop = 0 \<rparr>]"

text \<open>The camera at rest, at \<open>z = 10\<close> on the axis, looking at the origin.\<close>

definition restCamera :: camera where
  "restCamera =
     \<lparr> cam_position = \<lparr> vx = Num 0, vy = Num 0, vz = Num 10 \<rparr>,
       cam_lookAt = \<lparr> vx = Num 0, vy = Num 0, vz = Num 0 \<rparr> \<rparr>"

text \<open>The visibility state of a scene that has just mounted: nothing visible yet.\<close>

definition mountedVisibility :: visibility where
  "mountedVisibility = \<lparr> visibleIndices = {||}, lastVisibleUpdate = 0, setVisibleCalls = 0 \<rparr>"

section \<open>Facts about the number model and the layout\<close>

lemma js_finite_div: "js_isFinite (js_div a b) \<Longrightarrow> b \<noteq> Num 0"
  by (cases a; cases b) (auto simp: signed_inf_def split: if_splits)

lemma dynamicDepth_eq: "dynamicDepth n = Num (15 * real n)"
  by (simp add: dynamicDepth_def TUNNEL_DEPTH_def js_min_def js_max_def Let_def)

lemma rawSpacing_eq:
  "1 < n \<Longrightarrow> rawSpacing n (dynamicDepth n) = Num (15 * real n / (real n - 1))"
  by (simp add: rawSpacing_def dynamicDepth_eq js_sub_def)

lemma ratio_ge: "1 < n \<Longrightarrow> 15 \<le> 15 * real n / (real n - 1)"
  by (simp add: pos_le_divide_eq)

lemma spacing_eq: "spacing n (dynamicDepth n) = Num 15"
proof (cases "1 < n")
  case True
  then show ?thesis
    using ratio_ge [OF True] by (simp add: spacing_def rawSpacing_eq js_min_def)
next
  case False
  then show ?thesis by (simp add: spacing_def rawSpacing_def js_min_def)
qed

lemma tr_z_transformAt: "tr_z (transformAt (Num s) i) = Num (- 10 - real i * s)"
  by (simp add: transformAt_def Let_def firstPhotoZ_def js_sub_def)

lemma length_insert_cmp: "length (insert_cmp cmp a bs) = Suc (length bs)"
  by (induction bs) auto

lemma length_js_sort: "length (js_sort cmp xs) = length xs"
  by (induction xs) (auto simp: js_sort_def length_insert_cmp)

lemma length_sortedPhotos: "length (sortedPhotos photos) = length photos"
  by (simp add: sortedPhotos_def length_js_sort)

lemma sceneTransforms_eq:
  "sceneTransforms photos = map (transformAt (Num 15)) [0 ..< length photos]"
  by (simp add: sceneTransforms_def photoTransforms_def length_sortedPhotos spacing_eq)

section \<open>The layout claims\<close>

text \<open>
  C1. For every item list, the transforms computed for the list sorted by descending
  timestamp have strictly decreasing z: for all indices \<open>i < j\<close> of the transform
  array, the z of transform \<open>i\<close> is greater than the z of transform \<open>j\<close>. There is one
  transform per item.
\<close>

theorem transforms_z_strictly_decreasing:
  "i < j \<Longrightarrow> j < length (sceneTransforms photos) \<Longrightarrow>
   length (sceneTransforms photos) = length photos \<and>
   js_gt (tr_z (sceneTransforms photos ! i)) (tr_z (sceneTransforms photos ! j))"
  by (simp add: sceneTransforms_eq tr_z_transformAt js_gt_def)

theorem transforms_z_strictly_decreasing_witness:
  "(0::nat) < 2 \<and> 2 < length (sceneTransforms janFebFeb) \<and>
   js_gt (tr_z (sceneTransforms janFebFeb ! 0)) (tr_z (sceneTransforms janFebFeb ! 2))"
  using transforms_z_strictly_decreasing [of 0 2 janFebFeb]
  by (simp add: janFebFeb_def sceneTransforms_eq)

text \<open>
  C2, as the specification states it, asks for a depth budget that is capped, growing
  less than linearly beyond a threshold count. The code's budget is not capped: for 16
  items it is 240, above the 225 (one and a half tunnel depths) that appears in the
  expression, and doubling the count from 1000 to 2000 doubles the budget.
\<close>

theorem dynamicDepth_exceeds_cap:
  "dynamicDepth 16 = Num 240 \<and> js_gt (dynamicDepth 16) (js_mul TUNNEL_DEPTH (Num 1.5))
   \<and> dynamicDepth 1000 = Num 15000 \<and> dynamicDepth 2000 = Num 30000"
  by (simp add: dynamicDepth_eq js_gt_def TUNNEL_DEPTH_def)

text \<open>
  C2, amended. The path depth budget is 15 times the item count: 15 for a single item,
  growing by 15 with every further item, and no bound holds for all counts (the minimum
  with 225 never decides the result, the maximum with 15 times the count does).
\<close>

theorem dynamicDepth_linear:
  "dynamicDepth 1 = Num 15 \<and> dynamicDepth n = Num (15 * real n)
   \<and> js_sub (dynamicDepth (Suc n)) (dynamicDepth n) = Num 15
   \<and> \<not> (\<exists>cap. \<forall>m. js_le (dynamicDepth m) (Num cap))"
proof -
  have "\<not> (\<exists>cap. \<forall>m. js_le (dynamicDepth m) (Num cap))"
  proof
    assume "\<exists>cap. \<forall>m. js_le (dynamicDepth m) (Num cap)"
    then obtain cap where c: "\<forall>m. 15 * real m \<le> cap" by (auto simp: dynamicDepth_eq)
    obtain k :: nat where "cap < real k" using reals_Archimedean2 by blast
    moreover have "15 * real k \<le> cap" using c by blast
    ultimately show False by simp
  qed
  then show ?thesis by (simp add: dynamicDepth_eq js_sub_def)
qed

text \<open>
  C3. For every item count \<open>n \<ge> 0\<close> the spacing is at most the maximum spacing
  constant 15, and so is the distance in z of two consecutive transforms. The raw
  spacing is a finite number and the divisor \<open>n - 1\<close> of the only division is not zero
  where the division takes place (a division by zero gives an infinity or NaN, see
  \<open>js_finite_div\<close>); for \<open>n \<le> 1\<close> no division takes place, whatever the depth, and
  the spacing is the fallback constant 15.
\<close>

theorem spacing_bounded:
  "js_le (spacing n (dynamicDepth n)) (Num 15)
   \<and> js_isFinite (rawSpacing n (dynamicDepth n))
   \<and> (1 < n \<longrightarrow> js_sub (Num (real n)) (Num 1) \<noteq> Num 0)
   \<and> (n \<le> 1 \<longrightarrow> rawSpacing n depth = Num 15 \<and> spacing n depth = Num 15)
   \<and> (Suc i < length (sceneTransforms photos) \<longrightarrow>
        js_le (js_sub (tr_z (sceneTransforms photos ! i)) (tr_z (sceneTransforms photos ! Suc i)))
              (Num 15))"
proof -
  have "js_isFinite (rawSpacing n (dynamicDepth n))"
    by (cases "1 < n") (simp_all add: rawSpacing_eq, simp add: rawSpacing_def)
  moreover have "1 < n \<longrightarrow> js_sub (Num (real n)) (Num 1) \<noteq> Num 0"
    by (simp add: js_sub_def)
  moreover have "n \<le> 1 \<longrightarrow> rawSpacing n depth = Num 15 \<and> spacing n depth = Num 15"
    by (simp add: spacing_def rawSpacing_def js_min_def)
  moreover have "Suc i < length (sceneTransforms photos) \<longrightarrow>
        js_le (js_sub (tr_z (sceneTransforms photos ! i)) (tr_z (sceneTransforms photos ! Suc i)))
              (Num 15)"
    by (simp add: sceneTransforms_eq tr_z_transformAt js_sub_def)
  ultimately show ?thesis by (simp add: spacing_eq)
qed

theorem spacing_bounded_witness:
  "rawSpacing 1 (dynamicDepth 1) = Num 15 \<and> spacing 1 (dynamicDepth 1) = Num 15
   \<and> rawSpacing 0 (dynamicDepth 0) = Num 15
   \<and> Suc 0 < length (sceneTransforms janFebFeb)
   \<and> js_le (js_sub (tr_z (sceneTransforms janFebFeb ! 0))
                   (tr_z (sceneTransforms janFebFeb ! Suc 0))) (Num 15)"
  using spacing_bounded [of 1 "dynamicDepth 1" 0 janFebFeb]
    spacing_bounded [of 0 "dynamicDepth 0" 0 janFebFeb]
  by (simp add: janFebFeb_def sceneTransforms_eq)

text \<open>
  C4. The path offset function is total: for every argument, finite or not, both
  components of the result are finite numbers. At a finite depth they are the two sums
  of sinusoids; at an argument for which the sums are NaN (NaN itself and the two
  infinities) the NaN is replaced and the result is \<open>(0, 0)\<close>.
\<close>

theorem getPathOffset_total:
  "js_isFinite (off_x (getPathOffset z)) \<and> js_isFinite (off_y (getPathOffset z))
   \<and> getPathOffset (Num r) =
       \<lparr> off_x = Num (sin (r * 0.05) * 4 + cos (r * 0.02) * 2),
         off_y = Num (cos (r * 0.04) * 3 + sin (r * 0.01) * 2) \<rparr>
   \<and> getPathOffset NaN = \<lparr> off_x = Num 0, off_y = Num 0 \<rparr>
   \<and> getPathOffset PInf = \<lparr> off_x = Num 0, off_y = Num 0 \<rparr>
   \<and> getPathOffset NInf = \<lparr> off_x = Num 0, off_y = Num 0 \<rparr>"
  by (cases z) (simp_all add: getPathOffset_def Let_def signed_inf_def)

text \<open>
  C10. For every item count \<open>n \<ge> 1\<close> the depth budget is \<open>15 n\<close>, the raw spacing
  of more than one item is at least 15, and the spacing is exactly the maximum spacing
  constant 15; so the layout of \<open>n\<close> items occupies the depth \<open>15 (n - 1)\<close> between its
  first and its last transform, linear in the item count.
\<close>

theorem spacing_is_max:
  "1 \<le> n \<Longrightarrow>
     dynamicDepth n = Num (15 * real n)
   \<and> (1 < n \<longrightarrow> js_ge (rawSpacing n (dynamicDepth n)) (Num 15))
   \<and> spacing n (dynamicDepth n) = Num 15
   \<and> (length photos = n \<longrightarrow>
        js_sub (tr_z (hd (sceneTransforms photos))) (tr_z (last (sceneTransforms photos)))
          = Num (15 * (real n - 1)))"
proof -
  assume n: "1 \<le> n"
  have a: "1 < n \<longrightarrow> js_ge (rawSpacing n (dynamicDepth n)) (Num 15)"
    using ratio_ge by (simp add: rawSpacing_eq js_ge_def)
  have b: "length photos = n \<longrightarrow>
        js_sub (tr_z (hd (sceneTransforms photos))) (tr_z (last (sceneTransforms photos)))
          = Num (15 * (real n - 1))"
  proof
    assume l: "length photos = n"
    then have ne: "[0 ..< length photos] \<noteq> []" using n by simp
    have h: "hd [0 ..< length photos] = 0" using ne by (simp add: hd_upt)
    have la: "last [0 ..< length photos] = n - 1" using ne l by (simp add: last_upt)
    show "js_sub (tr_z (hd (sceneTransforms photos))) (tr_z (last (sceneTransforms photos)))
          = Num (15 * (real n - 1))"
      using ne n
      by (simp add: sceneTransforms_eq hd_map last_map h la tr_z_transformAt js_sub_def
          of_nat_diff)
  qed
  show ?thesis using a b dynamicDepth_eq [of n] spacing_eq [of n] by blast
qed

theorem spacing_is_max_witness:
  "(1::nat) \<le> 3 \<and> dynamicDepth 3 = Num 45 \<and> js_ge (rawSpacing 3 (dynamicDepth 3)) (Num 15)
   \<and> spacing 3 (dynamicDepth 3) = Num 15
   \<and> js_sub (tr_z (hd (sceneTransforms janFebFeb))) (tr_z (last (sceneTransforms janFebFeb)))
       = Num 30"
  using spacing_is_max [of 3 janFebFeb] by (auto simp: janFebFeb_def)

section \<open>Sorting and milestones\<close>

text \<open>
  The milestone loop adds one item for each change of the key, counted from the initial
  \<^verbatim>\<open>lastKey\<close>, the empty string, which no group key equals. The sorted list holds the
  same photos in descending order of timestamp.
\<close>

lemma milestones_loop_length:
  "length (fst (milestones_loop sp ps i (items, lk))) =
     length items + length (remdups_adj (lk # map groupKey ps)) - 1"
proof (induction ps arbitrary: i items lk)
  case Nil
  then show ?case by simp
next
  case (Cons p ps)
  show ?case
  proof (cases "groupKey p = lk")
    case True
    then show ?thesis using Cons.IH [of "Suc i" items lk] by simp
  next
    case False
    have "length (remdups_adj (groupKey p # map groupKey ps)) \<noteq> 0" by simp
    then show ?thesis using False Cons.IH by (simp add: Let_def)
  qed
qed

lemma groupKey_nonempty: "groupKey p \<noteq> []"
  by (simp add: groupKey_def)

lemma remdups_adj_fresh: "x \<notin> set ks \<Longrightarrow> remdups_adj (x # ks) = x # remdups_adj ks"
  by (cases ks) auto

lemma milestones_length: "length (milestones sps depth) = groupKeyRuns sps"
proof -
  have "[] \<notin> set (map groupKey sps)"
    using groupKey_nonempty by (metis (no_types) imageE list.set_map)
  then have "remdups_adj ([] # map groupKey sps) = [] # remdups_adj (map groupKey sps)"
    by (rule remdups_adj_fresh)
  then show ?thesis
    by (simp add: milestones_def groupKeyRuns_def milestones_loop_length)
qed

lemma remdups_adj_const:
  "ks \<noteq> [] \<Longrightarrow> \<forall>x \<in> set ks. x = k \<Longrightarrow> remdups_adj ks = [k]"
  by (induction ks rule: remdups_adj.induct) auto

lemma set_insert_cmp: "set (insert_cmp cmp a bs) = insert a (set bs)"
  by (induction bs) auto

lemma set_js_sort: "set (js_sort cmp xs) = set xs"
  by (induction xs) (auto simp: js_sort_def set_insert_cmp)

lemma sorted_insert_cmp:
  "sorted_wrt (\<lambda>a b. timestamp b \<le> timestamp a) bs \<Longrightarrow>
   sorted_wrt (\<lambda>a b. timestamp b \<le> timestamp a)
     (insert_cmp (\<lambda>a b. timestamp b - timestamp a) p bs)"
  by (induction bs) (auto simp: set_insert_cmp)

lemma sortedPhotos_descending:
  "sorted_wrt (\<lambda>a b. timestamp b \<le> timestamp a) (sortedPhotos photos)"
  by (induction photos) (auto simp: sortedPhotos_def js_sort_def sorted_insert_cmp)

lemma set_sortedPhotos: "set (sortedPhotos photos) = set photos"
  by (simp add: sortedPhotos_def set_js_sort)

text \<open>
  C5. For every item list, the number of milestones equals the number of maximal runs
  of adjacent equal group keys in the list sorted by descending timestamp. In
  particular, a non-empty list whose items all share one group key gives exactly one
  milestone; and three items, in any order, of which one is timestamped before the two
  others and carries another month of the same year than they do (January, February,
  February) give exactly two milestones.
\<close>

theorem milestones_count:
  "length (sceneMilestones photos) = groupKeyRuns (sortedPhotos photos)
   \<and> (photos \<noteq> [] \<and> (\<forall>p \<in> set photos. groupKey p = k) \<longrightarrow>
        length (sceneMilestones photos) = 1)
   \<and> (photos \<in> {[a, b, c], [a, c, b], [b, a, c], [b, c, a], [c, a, b], [c, b, a]}
        \<and> timestamp a < timestamp b \<and> timestamp a < timestamp c
        \<and> month b = month c \<and> month a \<noteq> month b \<and> year a = year b \<and> year b = year c \<longrightarrow>
        length (sceneMilestones photos) = 2)"
proof (intro conjI impI)
  show "length (sceneMilestones photos) = groupKeyRuns (sortedPhotos photos)"
    by (simp add: sceneMilestones_def milestones_length)
next
  assume h: "photos \<noteq> [] \<and> (\<forall>p \<in> set photos. groupKey p = k)"
  then have "sortedPhotos photos \<noteq> []"
    using length_sortedPhotos [of photos] by auto
  moreover have "\<forall>x \<in> set (map groupKey (sortedPhotos photos)). x = k"
    using h by (auto simp: set_sortedPhotos)
  ultimately have "remdups_adj (map groupKey (sortedPhotos photos)) = [k]"
    by (intro remdups_adj_const) auto
  then show "length (sceneMilestones photos) = 1"
    by (simp add: sceneMilestones_def milestones_length groupKeyRuns_def)
next
  assume "photos \<in> {[a, b, c], [a, c, b], [b, a, c], [b, c, a], [c, a, b], [c, b, a]}
        \<and> timestamp a < timestamp b \<and> timestamp a < timestamp c
        \<and> month b = month c \<and> month a \<noteq> month b \<and> year a = year b \<and> year b = year c"
  then show "length (sceneMilestones photos) = 2"
    by (auto simp: sceneMilestones_def milestones_length groupKeyRuns_def sortedPhotos_def
        js_sort_def groupKey_def)
qed

theorem milestones_count_witness:
  "length (sceneMilestones janFebFeb) = 2
   \<and> groupKeyRuns (sortedPhotos janFebFeb) = 2
   \<and> map groupKey (sortedPhotos janFebFeb)
       = [monthName ''2'' @ '' 2024'', monthName ''2'' @ '' 2024'', monthName ''1'' @ '' 2024'']
   \<and> tl janFebFeb \<noteq> []
   \<and> length (sceneMilestones (tl janFebFeb)) = 1"
  using milestones_count [of janFebFeb "[]" "janFebFeb ! 0" "janFebFeb ! 1" "janFebFeb ! 2"]
    milestones_count [of "tl janFebFeb" "monthName ''2'' @ '' 2024''"
       "janFebFeb ! 0" "janFebFeb ! 1" "janFebFeb ! 2"]
  by (simp add: janFebFeb_def photoOf_def monthName_def groupKey_def sortedPhotos_def js_sort_def)

section \<open>The autoplay claims\<close>

lemma find_holds: "find P xs = Some x \<Longrightarrow> P x"
  by (induction xs) (auto split: if_splits)

lemma getScrollContainer_scrollable:
  "getScrollContainer divs = Some el \<Longrightarrow> clientHeight el < scrollHeight el"
  unfolding getScrollContainer_def by (drule find_holds) simp

lemma autoplay_effect_Some:
  assumes "autoplay_effect a f divs now = Some st"
  shows "a \<and> f = None \<and> pending st \<and> lastTime st = now \<and> 0 < maxScroll st"
proof -
  from assms have g: "a \<and> f = None"
    by (auto simp: autoplay_effect_def split: if_splits)
  with assms obtain el where el: "getScrollContainer divs = Some el"
    and st: "st = \<lparr> scrollTop = el_scrollTop el, lastTime = now,
                     maxScroll = scrollHeight el - clientHeight el, pending = True \<rparr>"
    by (auto simp: autoplay_effect_def split: option.splits)
  from getScrollContainer_scrollable [OF el] st g show ?thesis by simp
qed

lemma scrollDivs_container:
  "autoplay_effect True None scrollDivs now
     = Some \<lparr> scrollTop = 0, lastTime = now, maxScroll = 1000, pending = True \<rparr>"
  by (simp add: autoplay_effect_def getScrollContainer_def scrollDivs_def)

lemma animate_running:
  "animate True None s st t =
     st\<lparr> scrollTop := min (scrollTop st + maxScroll st * s * ((t - lastTime st) / 1000)) (maxScroll st),
         lastTime := t,
         pending := (min (scrollTop st + maxScroll st * s * ((t - lastTime st) / 1000)) (maxScroll st)
                      < maxScroll st - 1) \<rparr>"
  by (simp add: animate_def Let_def)

lemma maxScroll_animate: "maxScroll (animate a f s st t) = maxScroll st"
  by (simp add: animate_def Let_def)

lemma maxScroll_run_frames: "maxScroll (run_frames a f s st ts) = maxScroll st"
  by (induction ts arbitrary: st) (simp_all add: maxScroll_animate)

lemma run_frames_linear:
  assumes "pending st" "scrollTop st = maxScroll st * s * ((lastTime st - t0) / 1000)"
    and "ts \<noteq> []"
    and "\<forall>t \<in> set (butlast ts). maxScroll st * s * ((t - t0) / 1000) < maxScroll st - 1"
  shows "scrollTop (run_frames True None s st ts)
           = min (maxScroll st * s * ((last ts - t0) / 1000)) (maxScroll st)
       \<and> pending (run_frames True None s st ts)
           = (maxScroll st * s * ((last ts - t0) / 1000) < maxScroll st - 1)"
  using assms
proof (induction ts arbitrary: st)
  case Nil
  then show ?case by simp
next
  case (Cons t ts)
  let ?st' = "animate True None s st t"
  have new: "scrollTop st + maxScroll st * s * ((t - lastTime st) / 1000)
               = maxScroll st * s * ((t - t0) / 1000)"
    using Cons.prems(2) by (simp add: algebra_simps diff_divide_distrib)
  show ?case
  proof (cases "ts = []")
    case True
    then show ?thesis using Cons.prems(1) new by (auto simp: animate_running)
  next
    case False
    then have lt: "maxScroll st * s * ((t - t0) / 1000) < maxScroll st - 1"
      using Cons.prems(4) by simp
    then have st': "?st' = st\<lparr> scrollTop := maxScroll st * s * ((t - t0) / 1000),
                               lastTime := t, pending := True \<rparr>"
      using new by (simp add: animate_running min_def)
    have "scrollTop (run_frames True None s ?st' ts)
            = min (maxScroll ?st' * s * ((last ts - t0) / 1000)) (maxScroll ?st')
       \<and> pending (run_frames True None s ?st' ts)
            = (maxScroll ?st' * s * ((last ts - t0) / 1000) < maxScroll ?st' - 1)"
      using False Cons.prems(4) by (intro Cons.IH) (simp_all add: st')
    then show ?thesis using Cons.prems(1) False by (simp add: st')
  qed
qed

text \<open>
  C6, as the specification states it, has the progress clamp to 1 once the elapsed time
  reaches \<open>1/s\<close>. The loop stops one pixel early: with 1000 scrollable pixels and
  speed \<open>1/2\<close>, a frame at 1999 ms leaves the scroll position at 999.5, within a pixel
  of the end, so no further frame is requested, and at 2500 ms, after more than
  \<open>1/s = 2\<close> seconds, the progress is still 1999/2000.
\<close>

theorem autoplay_stops_short:
  "autoplay_effect True None scrollDivs 0
     = Some \<lparr> scrollTop = 0, lastTime = 0, maxScroll = 1000, pending = True \<rparr>
   \<and> 1 / (1 / 2) \<le> (2500 - 0) / (1000::real)
   \<and> progress (run_frames True None (1 / 2)
        \<lparr> scrollTop = 0, lastTime = 0, maxScroll = 1000, pending = True \<rparr> [1999, 2500])
       = 1999 / 2000
   \<and> \<not> pending (run_frames True None (1 / 2)
        \<lparr> scrollTop = 0, lastTime = 0, maxScroll = 1000, pending = True \<rparr> [1999, 2500])"
  by (simp add: scrollDivs_container progress_def animate_running)

text \<open>
  C6, amended. On each tick, with autoplay on and no focus, the driver sets the scroll
  position to the minimum of the scrollable height and the old position plus scrollable
  height times speed times \<open>deltaTime\<close>, so progress advances by speed times
  \<open>deltaTime\<close> and never exceeds the path end; a further tick is requested exactly when
  the new position is more than one pixel short of the end. So, starting from progress 0
  at time \<open>now\<close> with speed \<open>s > 0\<close>, if no tick before the last one came within one
  pixel of the end, then after the last tick, at elapsed time \<open>t\<close>, the progress is
  \<open>min (s t) 1\<close>: it is \<open>s t\<close> when \<open>t < 1/s\<close>, and it is 1 with no further tick
  requested when \<open>t \<ge> 1/s\<close>.
\<close>

theorem autoplay_progress:
  assumes "autoplay_effect isAutoPlaying focusedPhotoId divs now = Some st"
    and "scrollTop st = 0" and "0 < s" and "ts \<noteq> []"
    and "\<forall>t \<in> set (butlast ts). maxScroll st * s * ((t - now) / 1000) < maxScroll st - 1"
  shows "scrollTop (animate True None s st' t)
           = min (scrollTop st' + maxScroll st' * s * ((t - lastTime st') / 1000)) (maxScroll st')
       \<and> scrollTop (animate True None s st' t) \<le> maxScroll st'
       \<and> pending (animate True None s st' t)
           = (scrollTop (animate True None s st' t) < maxScroll st' - 1)
       \<and> progress (run_frames isAutoPlaying focusedPhotoId s st ts)
           = min (s * ((last ts - now) / 1000)) 1
       \<and> ((last ts - now) / 1000 < 1 / s \<longrightarrow>
            progress (run_frames isAutoPlaying focusedPhotoId s st ts)
              = s * ((last ts - now) / 1000))
       \<and> (1 / s \<le> (last ts - now) / 1000 \<longrightarrow>
            progress (run_frames isAutoPlaying focusedPhotoId s st ts) = 1
            \<and> \<not> pending (run_frames isAutoPlaying focusedPhotoId s st ts))"
proof -
  let ?M = "maxScroll st"
  let ?e = "(last ts - now) / 1000"
  let ?r = "run_frames isAutoPlaying focusedPhotoId s st ts"
  from autoplay_effect_Some [OF assms(1)]
  have a: "isAutoPlaying" and f: "focusedPhotoId = None" and p: "pending st"
    and l: "lastTime st = now" and M: "0 < ?M"
    by simp_all
  have "scrollTop st = ?M * s * ((lastTime st - now) / 1000)"
    using assms(2) l by simp
  from run_frames_linear [OF p this assms(4) assms(5)] a f
  have top: "scrollTop ?r = min (?M * s * ?e) ?M"
    and pend: "pending ?r = (?M * s * ?e < ?M - 1)"
    by simp_all
  have "min (?M * s * ?e) ?M = ?M * min (s * ?e) 1"
    using M by (simp add: min_def mult.assoc)
  moreover have "progress ?r = scrollTop ?r / ?M"
    by (simp add: progress_def maxScroll_run_frames)
  ultimately have "progress ?r = (?M * min (s * ?e) 1) / ?M"
    using top by (simp only:)
  then have prog: "progress ?r = min (s * ?e) 1"
    using M by simp
  have lt: "?e < 1 / s \<longrightarrow> progress ?r = s * ?e"
    using assms(3) prog by (simp add: pos_less_divide_eq mult.commute min_def)
  have ge: "1 / s \<le> ?e \<longrightarrow> progress ?r = 1 \<and> \<not> pending ?r"
  proof
    assume "1 / s \<le> ?e"
    then have one: "1 \<le> s * ?e" using assms(3) by (simp add: pos_divide_le_eq mult.commute)
    then have "?M * 1 \<le> ?M * (s * ?e)" using M by (intro mult_left_mono) simp_all
    then have "\<not> (?M * s * ?e < ?M - 1)" by (simp add: mult.assoc)
    then show "progress ?r = 1 \<and> \<not> pending ?r" using one prog pend by (simp add: min_def)
  qed
  have step: "scrollTop (animate True None s st' t)
           = min (scrollTop st' + maxScroll st' * s * ((t - lastTime st') / 1000)) (maxScroll st')
       \<and> scrollTop (animate True None s st' t) \<le> maxScroll st'
       \<and> pending (animate True None s st' t)
           = (scrollTop (animate True None s st' t) < maxScroll st' - 1)"
    by (simp add: animate_running)
  show ?thesis using step prog lt ge by blast
qed

theorem autoplay_progress_witness:
  "progress (run_frames True None (1 / 2)
        \<lparr> scrollTop = 0, lastTime = 0, maxScroll = 1000, pending = True \<rparr> [16, 500, 1000])
       = 1 / 2
   \<and> progress (run_frames True None (1 / 2)
        \<lparr> scrollTop = 0, lastTime = 0, maxScroll = 1000, pending = True \<rparr> [16, 500, 1000, 2016])
       = 1
   \<and> \<not> pending (run_frames True None (1 / 2)
        \<lparr> scrollTop = 0, lastTime = 0, maxScroll = 1000, pending = True \<rparr> [16, 500, 1000, 2016])"
  using autoplay_progress [of True None scrollDivs 0
      "\<lparr> scrollTop = 0, lastTime = 0, maxScroll = 1000, pending = True \<rparr>" "1 / 2"
      "[16, 500, 1000]"]
    autoplay_progress [of True None scrollDivs 0
      "\<lparr> scrollTop = 0, lastTime = 0, maxScroll = 1000, pending = True \<rparr>" "1 / 2"
      "[16, 500, 1000, 2016]"]
  by (simp add: scrollDivs_container animate_running)

text \<open>
  C7, as the specification states it, has the human scroll channel disabled while
  autoplay is active. On the example page, with autoplay on and nothing focused, the
  autoplay loop starts and the scroll controls are enabled at the same time.
\<close>

theorem autoplay_and_scroll_both_active:
  "autoplay_effect True None scrollDivs 0
     = Some \<lparr> scrollTop = 0, lastTime = 0, maxScroll = 1000, pending = True \<rparr>
   \<and> scrollControlsEnabled None"
  by (simp add: scrollDivs_container scrollControlsEnabled_def)

text \<open>
  C7, amended. The human scroll channel is enabled exactly when no item is focused,
  whatever the autoplay flag. Whenever the autoplay loop runs (the flag is set, no item
  is focused and a scroll container is found) the human channel is enabled too; while an
  item is focused the human channel is disabled and no autoplay loop is started.
\<close>

theorem scroll_enabled_iff_unfocused:
  "scrollControlsEnabled focusedPhotoId = (focusedPhotoId = None)
   \<and> (autoplay_effect isAutoPlaying focusedPhotoId divs now \<noteq> None \<longrightarrow>
        isAutoPlaying \<and> scrollControlsEnabled focusedPhotoId)
   \<and> (focusedPhotoId \<noteq> None \<longrightarrow>
        \<not> scrollControlsEnabled focusedPhotoId
        \<and> autoplay_effect isAutoPlaying focusedPhotoId divs now = None)"
proof -
  have "autoplay_effect isAutoPlaying focusedPhotoId divs now \<noteq> None \<longrightarrow>
        isAutoPlaying \<and> focusedPhotoId = None"
    using autoplay_effect_Some [of isAutoPlaying focusedPhotoId divs now] by blast
  moreover have "focusedPhotoId \<noteq> None \<longrightarrow>
      autoplay_effect isAutoPlaying focusedPhotoId divs now = None"
    by (simp add: autoplay_effect_def)
  ultimately show ?thesis unfolding scrollControlsEnabled_def by blast
qed

theorem scroll_enabled_iff_unfocused_witness:
  "autoplay_effect True None scrollDivs 0 \<noteq> None \<and> scrollControlsEnabled None
   \<and> \<not> scrollControlsEnabled (Some 2) \<and> autoplay_effect True (Some 2) scrollDivs 0 = None"
  using scroll_enabled_iff_unfocused [of None True scrollDivs 0]
    scroll_enabled_iff_unfocused [of "Some 2" True scrollDivs 0]
  by (simp add: scrollDivs_container)

section \<open>The visibility claim\<close>

lemma visibleChanged_iff: "visibleChanged nextVisible cur = (nextVisible \<noteq> cur)"
proof -
  have "nextVisible = cur" if c: "fcard nextVisible = fcard cur" and s: "nextVisible |\<subseteq>| cur"
    using that by (metis fcard_seteq order_refl)
  then show ?thesis by (auto simp: visibleChanged_def)
qed

lemma frame_visibility_recompute:
  "0.08 < now - lastVisibleUpdate st \<Longrightarrow>
     visibleIndices (frame_visibility now camZ ts st) = computeVisible camZ ts
   \<and> lastVisibleUpdate (frame_visibility now camZ ts st) = now"
  by (simp add: frame_visibility_def Let_def visibleChanged_iff)

lemma computeVisible_example:
  "computeVisible (Num 10) (sceneTransforms janFebFeb) = {|0, 1, 2|}"
  by (auto simp: sceneTransforms_eq janFebFeb_def computeVisible_def upt_rec tr_z_transformAt
      js_sub_def js_gt_def Let_def)

text \<open>
  C8. A recompute whose result equals the current visible set leaves the visible set as
  it is and calls \<^verbatim>\<open>setVisibleIndices\<close> no further time. So after one recompute (a frame
  that passes the throttle), a second frame with the same camera depth and the same
  transforms has the same visible set and no further state change. The test the code
  makes (sizes differ, or some element of the next set is missing) is exactly
  inequality of the two sets, so the state setter is called exactly on a recompute
  whose result differs from the current set.
\<close>

theorem visibility_idempotent:
  "(visibleIndices st = computeVisible camZ ts \<longrightarrow>
      visibleIndices (frame_visibility now camZ ts st) = visibleIndices st
    \<and> setVisibleCalls (frame_visibility now camZ ts st) = setVisibleCalls st)
   \<and> (0.08 < now1 - lastVisibleUpdate st \<longrightarrow>
        visibleIndices (frame_visibility now1 camZ ts st) = computeVisible camZ ts
      \<and> visibleIndices (frame_visibility now2 camZ ts (frame_visibility now1 camZ ts st))
          = visibleIndices (frame_visibility now1 camZ ts st)
      \<and> setVisibleCalls (frame_visibility now2 camZ ts (frame_visibility now1 camZ ts st))
          = setVisibleCalls (frame_visibility now1 camZ ts st))
   \<and> visibleChanged nextVisible cur = (nextVisible \<noteq> cur)
   \<and> setVisibleCalls (frame_visibility now camZ ts st) =
       (if 0.08 < now - lastVisibleUpdate st \<and> computeVisible camZ ts \<noteq> visibleIndices st
        then Suc (setVisibleCalls st) else setVisibleCalls st)"
proof -
  have a: "visibleIndices st' = computeVisible camZ ts \<longrightarrow>
      visibleIndices (frame_visibility t camZ ts st') = visibleIndices st'
    \<and> setVisibleCalls (frame_visibility t camZ ts st') = setVisibleCalls st'" for st' t
    by (simp add: frame_visibility_def Let_def visibleChanged_iff)
  have b: "0.08 < now1 - lastVisibleUpdate st \<longrightarrow>
        visibleIndices (frame_visibility now1 camZ ts st) = computeVisible camZ ts
      \<and> visibleIndices (frame_visibility now2 camZ ts (frame_visibility now1 camZ ts st))
          = visibleIndices (frame_visibility now1 camZ ts st)
      \<and> setVisibleCalls (frame_visibility now2 camZ ts (frame_visibility now1 camZ ts st))
          = setVisibleCalls (frame_visibility now1 camZ ts st)"
    using a [of "frame_visibility now1 camZ ts st" now2]
      frame_visibility_recompute [of now1 st camZ ts]
    by simp
  have c: "setVisibleCalls (frame_visibility now camZ ts st) =
       (if 0.08 < now - lastVisibleUpdate st \<and> computeVisible camZ ts \<noteq> visibleIndices st
        then Suc (setVisibleCalls st) else setVisibleCalls st)"
    by (simp add: frame_visibility_def Let_def visibleChanged_iff)
  show ?thesis using a [of st now] b c visibleChanged_iff by blast
qed

theorem visibility_idempotent_witness:
  "visibleIndices (frame_visibility 0.1 (Num 10) (sceneTransforms janFebFeb) mountedVisibility)
      = {|0, 1, 2|}
   \<and> setVisibleCalls (frame_visibility 0.1 (Num 10) (sceneTransforms janFebFeb) mountedVisibility)
      = 1
   \<and> visibleIndices (frame_visibility 0.2 (Num 10) (sceneTransforms janFebFeb)
        (frame_visibility 0.1 (Num 10) (sceneTransforms janFebFeb) mountedVisibility))
      = {|0, 1, 2|}
   \<and> setVisibleCalls (frame_visibility 0.2 (Num 10) (sceneTransforms janFebFeb)
        (frame_visibility 0.1 (Num 10) (sceneTransforms janFebFeb) mountedVisibility))
      = 1"
  using visibility_idempotent [of mountedVisibility "Num 10" "sceneTransforms janFebFeb" "0.1" "0.1" "0.2"]
  by (simp add: computeVisible_example mountedVisibility_def)

section \<open>The camera claim\<close>

text \<open>
  C9. In focused mode, if the resolved index is \<open>-1\<close> (or any negative number) or is
  not below the length of the current transform array, the frame leaves the camera as it
  is, and no transform is read. The test is made anew in every frame: once the index
  is one of the array, the same frame function moves the camera to the focused pose of
  that transform.
\<close>

theorem camera_skips_invalid_index:
  "(focusedPhotoId \<noteq> None \<and> (index = - 1 \<or> int (length ts) \<le> index \<or> index < 0) \<longrightarrow>
      frame_camera focusedPhotoId index ts viewportWidth scrollOffset depth cam = cam)
   \<and> (focusedPhotoId \<noteq> None \<and> 0 \<le> index \<and> index < int (length ts) \<longrightarrow>
      frame_camera focusedPhotoId index ts viewportWidth scrollOffset depth cam
        = focusedPose viewportWidth (ts ! nat index) cam)"
  by (auto simp: frame_camera_def js_index_def)

lemma focusedPhotoIndex_example:
  "focusedPhotoIndex (Some 7) (sortedPhotos janFebFeb) = - 1
   \<and> focusedPhotoIndex (Some 2) (sortedPhotos janFebFeb) = 1"
  by (simp add: focusedPhotoIndex_def findIndex_def sortedPhotos_def js_sort_def janFebFeb_def
      photoOf_def)

lemma length_scene_example: "length (sceneTransforms janFebFeb) = 3"
  by (simp add: sceneTransforms_eq janFebFeb_def)

theorem camera_skips_invalid_index_witness:
  "frame_camera (Some 7) (focusedPhotoIndex (Some 7) (sortedPhotos janFebFeb))
      (sceneTransforms janFebFeb) (Num 12) (Num 0) (dynamicDepth 3) restCamera = restCamera
   \<and> frame_camera (Some 2) 3 (sceneTransforms janFebFeb) (Num 12) (Num 0) (dynamicDepth 3)
        restCamera = restCamera
   \<and> frame_camera (Some 2) (focusedPhotoIndex (Some 2) (sortedPhotos janFebFeb))
        (sceneTransforms janFebFeb) (Num 12) (Num 0) (dynamicDepth 3) restCamera
      = focusedPose (Num 12) (sceneTransforms janFebFeb ! 1) restCamera"
  using camera_skips_invalid_index [of "Some 7" "- 1" "sceneTransforms janFebFeb" "Num 12" "Num 0"
      "dynamicDepth 3" restCamera]
    camera_skips_invalid_index [of "Some 2" 3 "sceneTransforms janFebFeb" "Num 12" "Num 0"
      "dynamicDepth 3" restCamera]
    camera_skips_invalid_index [of "Some 2" 1 "sceneTransforms janFebFeb" "Num 12" "Num 0"
      "dynamicDepth 3" restCamera]
  by (simp add: focusedPhotoIndex_example length_scene_example)

end
